theory Spec2Isabelle
  imports Complex_Main "HOL-Library.Log_Nat"
begin

section \<open>The seamless loop scroller of commission.js\<close>

text \<open>
  The development embeds \<^verbatim>\<open>setupAutoScroll\<close> of \<^verbatim>\<open>src/commission.js\<close>: the closure
  variables of the function, the container's \<^verbatim>\<open>scrollLeft\<close>, the one cell of
  \<^verbatim>\<open>localStorage\<close> it uses and the pending timeouts it created form one record, and every
  listener the function installs is a function on that record.

  Numbers. A JavaScript number that is neither \<^verbatim>\<open>NaN\<close> nor infinite is read as the real
  number it denotes. The only number of the program that may be \<^verbatim>\<open>NaN\<close> or infinite is the
  one parsed from storage, and it has a type of its own (\<open>jsnum\<close>).

  Arithmetic has two readings. In the functions of the closure as they come first, every
  sum, difference, product and quotient is the exact one. The subsection on binary64
  arithmetic then gives the normalisation functions and the scroll listener once more with
  the rounding that a double performs after each of these operations. The two readings
  part at the upper edge of the middle band, and what is said about that edge is said of
  the second.
\<close>

subsection \<open>The remainder operator\<close>

text \<open>
  \<^verbatim>\<open>a % b\<close> is the remainder of the division truncated toward zero: its sign is the sign
  of the dividend. \<^verbatim>\<open>a % 0\<close> is \<^verbatim>\<open>NaN\<close> in JavaScript; the program guards every use
  with \<^verbatim>\<open>setWidth <= 0\<close>, so \<open>js_rem\<close> is only ever applied to a positive divisor.
\<close>

definition trunc :: "real \<Rightarrow> int" where
  "trunc x = (if 0 \<le> x then \<lfloor>x\<rfloor> else \<lceil>x\<rceil>)"

definition js_rem :: "real \<Rightarrow> real \<Rightarrow> real" where
  "js_rem a b = a - b * of_int (trunc (a / b))"

subsection \<open>Storage and state\<close>

text \<open>
  \<open>jsnum\<close> is the value of \<^verbatim>\<open>Number(stored)\<close>. The storage cell under the key
  \<^verbatim>\<open>commissionScrollPos\<close> is modelled by that value: a missing key reads as \<^verbatim>\<open>null\<close> and
  \<^verbatim>\<open>Number(null)\<close> is 0, text that is no number reads as \<^verbatim>\<open>NaN\<close>. \<open>getFails\<close> and
  \<open>setFails\<close> say whether (and with what) the browser makes a read or a write throw.
\<close>

datatype jsnum = Finite real | NaN | PosInfinity | NegInfinity

datatype error = SecurityError | QuotaExceededError

record localStorage =
  item :: jsnum
  getFails :: "error option"
  setFails :: "error option"

definition getItem :: "localStorage \<Rightarrow> error + jsnum" where
  "getItem ls = (case getFails ls of Some e \<Rightarrow> Inl e | None \<Rightarrow> Inr (item ls))"

definition setItem :: "localStorage \<Rightarrow> real \<Rightarrow> error + localStorage" where
  "setItem ls v = (case setFails ls of Some e \<Rightarrow> Inl e | None \<Rightarrow> Inr (ls\<lparr>item := Finite v\<rparr>))"

fun isFinite :: "jsnum \<Rightarrow> bool" where
  "isFinite (Finite r) = True"
| "isFinite NaN = False"
| "isFinite PosInfinity = False"
| "isFinite NegInfinity = False"

text \<open>
  The closure variables keep their names. \<open>scrollLeft\<close> is \<^verbatim>\<open>container.scrollLeft\<close>, and a
  write to it stores the value written. \<open>timeouts\<close> are the handles of the timeouts of this
  scroller that the browser still has pending, \<open>nextTimeout\<close> the handle the next
  \<^verbatim>\<open>setTimeout\<close> returns (handles are positive integers).
\<close>

record scroller =
  paused :: bool
  setWidth :: real
  savedPos :: real
  autoWrite :: bool
  lastTs :: real
  persistTimer :: "nat option"
  scrollLeft :: real
  storage :: localStorage
  timeouts :: "nat list"
  nextTimeout :: nat

definition speedPxPerSecond :: real where
  "speedPxPerSecond = 30"

text \<open>
  The delay of the debounce is a constant of the closure. Time itself is not part of the
  state: a pending timeout may fire at any point of the event loop below.
\<close>

definition persistDelayMs :: real where
  "persistDelayMs = 200"

subsection \<open>The functions of the closure\<close>

definition normalizeOffset :: "scroller \<Rightarrow> real \<Rightarrow> real" where
  "normalizeOffset s v =
     (if setWidth s \<le> 0 then 0
      else js_rem (js_rem v (setWidth s) + setWidth s) (setWidth s))"

text \<open>
  The sum and the difference of \<open>normalizeToMiddleBand\<close> are exact here;
  \<open>normalizeToMiddleBand64\<close> below rounds them as the doubles of the program do.
\<close>

definition normalizeToMiddleBand :: "scroller \<Rightarrow> real \<Rightarrow> real" where
  "normalizeToMiddleBand s v =
     (if setWidth s \<le> 0 then 0
      else setWidth s + normalizeOffset s (v - setWidth s))"

definition setScrollSafely :: "real \<Rightarrow> scroller \<Rightarrow> scroller" where
  "setScrollSafely v s = ((s\<lparr>autoWrite := True\<rparr>)\<lparr>scrollLeft := v\<rparr>)\<lparr>autoWrite := False\<rparr>"

text \<open>
  \<^verbatim>\<open>persistPosition\<close> wraps the write in \<^verbatim>\<open>try { ... } catch { }\<close>: the result is a
  completion, \<open>Inl\<close> for an exception that leaves the function.
\<close>

definition persistPosition :: "scroller \<Rightarrow> error + scroller" where
  "persistPosition s =
     (case setItem (storage s) (savedPos s) of
        Inl e \<Rightarrow> Inr s
      | Inr ls \<Rightarrow> Inr (s\<lparr>storage := ls\<rparr>))"

definition truthy :: "nat option \<Rightarrow> bool" where
  "truthy h = (case h of None \<Rightarrow> False | Some t \<Rightarrow> t \<noteq> 0)"

definition clearTimeout :: "nat option \<Rightarrow> scroller \<Rightarrow> scroller" where
  "clearTimeout h s =
     (case h of None \<Rightarrow> s | Some t \<Rightarrow> s\<lparr>timeouts := removeAll t (timeouts s)\<rparr>)"

definition setTimeout :: "scroller \<Rightarrow> nat \<times> scroller" where
  "setTimeout s =
     (nextTimeout s,
      s\<lparr>timeouts := timeouts s @ [nextTimeout s], nextTimeout := Suc (nextTimeout s)\<rparr>)"

definition schedulePersist :: "scroller \<Rightarrow> scroller" where
  "schedulePersist s =
     (let s1 = (if truthy (persistTimer s) then clearTimeout (persistTimer s) s else s);
          (t, s2) = setTimeout s1
      in s2\<lparr>persistTimer := Some t\<rparr>)"

text \<open>The callback that \<^verbatim>\<open>schedulePersist\<close> hands to \<^verbatim>\<open>setTimeout\<close>.\<close>

definition persistTimeout :: "scroller \<Rightarrow> error + scroller" where
  "persistTimeout s = persistPosition (s\<lparr>persistTimer := None\<rparr>)"

definition syncFromCurrentScroll :: "scroller \<Rightarrow> scroller" where
  "syncFromCurrentScroll s =
     (if setWidth s \<le> 0 then s
      else
        let normalized = normalizeToMiddleBand s (scrollLeft s);
            s1 = (if \<bar>normalized - scrollLeft s\<bar> > 1 then setScrollSafely normalized s else s)
        in s1\<lparr>savedPos := normalizeOffset s1 (normalized - setWidth s1)\<rparr>)"

subsection \<open>Setup\<close>

text \<open>
  \<open>setupAutoScroll container offsetWidth ls\<close>: \<open>container\<close> is what
  \<^verbatim>\<open>document.getElementById('commission-scroll')\<close> finds (the element, given by its
  \<^verbatim>\<open>scrollLeft\<close>, or nothing), \<open>offsetWidth\<close> is \<^verbatim>\<open>referenceSet.offsetWidth\<close> and \<open>ls\<close>
  the storage the page finds. Without a container the function returns before it installs
  anything. \<open>restored\<close> is the \<^verbatim>\<open>try\<close> block that reads the stored offset into
  \<open>savedPos\<close>, whose initial value is 0.
\<close>

definition restored :: "localStorage \<Rightarrow> real" where
  "restored ls =
     (case getItem ls of
        Inl e \<Rightarrow> 0
      | Inr parsed \<Rightarrow>
          (if isFinite parsed then (case parsed of Finite r \<Rightarrow> r | _ \<Rightarrow> 0) else 0))"

definition setupAutoScroll :: "real option \<Rightarrow> real \<Rightarrow> localStorage \<Rightarrow> scroller option" where
  "setupAutoScroll container offsetWidth ls =
     (case container of
        None \<Rightarrow> None
      | Some x \<Rightarrow>
          let s0 = \<lparr>paused = False, setWidth = offsetWidth, savedPos = restored ls,
                    autoWrite = False, lastTs = 0, persistTimer = None, scrollLeft = x,
                    storage = ls, timeouts = [], nextTimeout = 1\<rparr>;
              s1 = s0\<lparr>savedPos := normalizeOffset s0 (savedPos s0)\<rparr>
          in Some (if setWidth s1 > 0 then setScrollSafely (setWidth s1 + savedPos s1) s1 else s1))"

subsection \<open>The listeners\<close>

definition onMouseEnter :: "scroller \<Rightarrow> scroller" where
  "onMouseEnter s = s\<lparr>paused := True\<rparr>"

definition onMouseLeave :: "scroller \<Rightarrow> scroller" where
  "onMouseLeave s = s\<lparr>paused := False\<rparr>"

definition onScroll :: "scroller \<Rightarrow> scroller" where
  "onScroll s =
     (if autoWrite s \<or> setWidth s \<le> 0 then s
      else schedulePersist (syncFromCurrentScroll s))"

text \<open>\<open>onResize w\<close>: the resize listener, when \<^verbatim>\<open>referenceSet.offsetWidth\<close> is now \<open>w\<close>.\<close>

definition onResize :: "real \<Rightarrow> scroller \<Rightarrow> scroller" where
  "onResize w s =
     (let prevWidth = setWidth s;
          s1 = s\<lparr>setWidth := w\<rparr>
      in if setWidth s1 \<le> 0 then s1
         else
           let s2 = (if prevWidth > 0
                     then s1\<lparr>savedPos := (savedPos s1 / prevWidth) * setWidth s1\<rparr> else s1);
               s3 = s2\<lparr>savedPos := normalizeOffset s2 (savedPos s2)\<rparr>
           in setScrollSafely (setWidth s3 + savedPos s3) s3)"

definition onPageHide :: "scroller \<Rightarrow> error + scroller" where
  "onPageHide s =
     persistPosition
       (if truthy (persistTimer s)
        then (clearTimeout (persistTimer s) s)\<lparr>persistTimer := None\<rparr> else s)"

text \<open>\<open>onVisibilityChange hidden\<close>: \<open>hidden\<close> is \<^verbatim>\<open>document.visibilityState === 'hidden'\<close>.\<close>

definition onVisibilityChange :: "bool \<Rightarrow> scroller \<Rightarrow> error + scroller" where
  "onVisibilityChange hidden s =
     (if hidden
      then persistPosition
             (if truthy (persistTimer s)
              then (clearTimeout (persistTimer s) s)\<lparr>persistTimer := None\<rparr> else s)
      else Inr s)"

text \<open>
  \<open>tick ts\<close> is one animation frame. It ends with \<^verbatim>\<open>requestAnimationFrame(tick)\<close>, which
  asks for the next frame and changes no variable of the scroller.
\<close>

definition tick :: "real \<Rightarrow> scroller \<Rightarrow> scroller" where
  "tick ts s =
     (let s1 = (if lastTs s = 0 then s\<lparr>lastTs := ts\<rparr> else s);
          deltaSeconds = (ts - lastTs s1) / 1000;
          s2 = s1\<lparr>lastTs := ts\<rparr>
      in if \<not> paused s2 \<and> setWidth s2 > 0
         then
           let s3 = s2\<lparr>savedPos := normalizeOffset s2 (savedPos s2 + speedPxPerSecond * deltaSeconds)\<rparr>
           in setScrollSafely (setWidth s3 + savedPos s3) s3
         else s2)"

subsection \<open>The browser's event loop\<close>

text \<open>
  What the browser may do to a scroller once it is set up: deliver one of the events that
  have a listener, run a frame, or fire a pending timeout. A user scroll moves the
  container to a position and then delivers the scroll event; a timeout that fires leaves
  the browser's list before its callback runs, and a handle that is not pending fires
  nothing.
\<close>

datatype event =
    MouseEnter
  | MouseLeave
  | UserScroll real
  | Resize real
  | PageHide
  | VisibilityChange bool
  | Frame real
  | Timeout nat

definition dispatch :: "event \<Rightarrow> scroller \<Rightarrow> error + scroller" where
  "dispatch ev s =
     (case ev of
        MouseEnter \<Rightarrow> Inr (onMouseEnter s)
      | MouseLeave \<Rightarrow> Inr (onMouseLeave s)
      | UserScroll x \<Rightarrow> Inr (onScroll (s\<lparr>scrollLeft := x\<rparr>))
      | Resize w \<Rightarrow> Inr (onResize w s)
      | PageHide \<Rightarrow> onPageHide s
      | VisibilityChange hidden \<Rightarrow> onVisibilityChange hidden s
      | Frame ts \<Rightarrow> Inr (tick ts s)
      | Timeout t \<Rightarrow>
          (if t \<in> set (timeouts s)
           then persistTimeout (s\<lparr>timeouts := removeAll t (timeouts s)\<rparr>)
           else Inr s))"

fun run :: "scroller \<Rightarrow> event list \<Rightarrow> error + scroller" where
  "run s [] = Inr s"
| "run s (ev # evs) = (case dispatch ev s of Inl e \<Rightarrow> Inl e | Inr s' \<Rightarrow> run s' evs)"

subsection \<open>A sample scroller\<close>

text \<open>
  The worked examples of the specification are on a band of 1000 pixels. \<open>band1000\<close> is
  the scroller that \<open>setupAutoScroll\<close> returns for such a band and an empty storage.
\<close>

definition emptyStorage :: localStorage where
  "emptyStorage = \<lparr>item = Finite 0, getFails = None, setFails = None\<rparr>"

definition band1000 :: scroller where
  "band1000 =
     \<lparr>paused = False, setWidth = 1000, savedPos = 0, autoWrite = False, lastTs = 0,
      persistTimer = None, scrollLeft = 1000, storage = emptyStorage, timeouts = [],
      nextTimeout = 1\<rparr>"

subsection \<open>Predicates of the statements\<close>

text \<open>
  \<open>singleSlot\<close>: the browser has pending exactly the timeout whose handle is in
  \<open>persistTimer\<close>, and none when that is \<^verbatim>\<open>null\<close>; handles are positive and below the next
  one to be handed out.
\<close>

definition singleSlot :: "scroller \<Rightarrow> bool" where
  "singleSlot s =
     (timeouts s = (case persistTimer s of None \<Rightarrow> [] | Some t \<Rightarrow> [t])
      \<and> list_all (\<lambda>t. 0 < t \<and> t < nextTimeout s) (timeouts s)
      \<and> 0 < nextTimeout s)"

text \<open>\<open>positiveResize ev\<close>: the event is a resize after which the band has a positive width.\<close>

fun positiveResize :: "event \<Rightarrow> bool" where
  "positiveResize (Resize w) = (0 < w)"
| "positiveResize ev = False"

subsection \<open>Binary64 arithmetic\<close>

text \<open>
  A double is a real of the form \<open>m * 2 ^ e\<close> with \<open>\<bar>m\<bar> < 2 ^ 53\<close>. \<open>round64 x\<close> is the
  double nearest to \<open>x\<close>, the one with the even significand when two are equally near:
  what \<^verbatim>\<open>+\<close>, \<^verbatim>\<open>-\<close>, \<^verbatim>\<open>*\<close> and \<^verbatim>\<open>/\<close> return for an exact result \<open>x\<close>.
  \<open>exponent a\<close> is the integer part of the binary logarithm of a positive \<open>a\<close>; below
  \<open>2 ^ - 1022\<close> the doubles are evenly spaced. Results of magnitude \<open>2 ^ 1024\<close> and more,
  which a double turns into an infinity, are outside this reading. The remainder
  \<^verbatim>\<open>%\<close> of two doubles is a double, so \<open>js_rem\<close> needs no rounding.
\<close>

definition roundHalfEven :: "real \<Rightarrow> int" where
  "roundHalfEven x =
     (let f = \<lfloor>x\<rfloor>; d = x - of_int f
      in if d < 1 / 2 then f else if 1 / 2 < d then f + 1 else if even f then f else f + 1)"

definition exponent :: "real \<Rightarrow> int" where
  "exponent a = (if 1 \<le> a then bitlen \<lfloor>a\<rfloor> - 1 else - bitlen (\<lceil>1 / a\<rceil> - 1))"

definition round64 :: "real \<Rightarrow> real" where
  "round64 x =
     (if x = 0 then 0
      else let u = 2 powi (max (exponent \<bar>x\<bar>) (- 1022) - 52)
           in u * of_int (roundHalfEven (x / u)))"

text \<open>
  The normalisation functions, \<^verbatim>\<open>syncFromCurrentScroll\<close> and the scroll listener, with
  the result of every addition and subtraction rounded.
\<close>

definition normalizeOffset64 :: "scroller \<Rightarrow> real \<Rightarrow> real" where
  "normalizeOffset64 s v =
     (if setWidth s \<le> 0 then 0
      else js_rem (round64 (js_rem v (setWidth s) + setWidth s)) (setWidth s))"

definition normalizeToMiddleBand64 :: "scroller \<Rightarrow> real \<Rightarrow> real" where
  "normalizeToMiddleBand64 s v =
     (if setWidth s \<le> 0 then 0
      else round64 (setWidth s + normalizeOffset64 s (round64 (v - setWidth s))))"

definition syncFromCurrentScroll64 :: "scroller \<Rightarrow> scroller" where
  "syncFromCurrentScroll64 s =
     (if setWidth s \<le> 0 then s
      else
        let normalized = normalizeToMiddleBand64 s (scrollLeft s);
            s1 = (if \<bar>round64 (normalized - scrollLeft s)\<bar> > 1
                  then setScrollSafely normalized s else s)
        in s1\<lparr>savedPos := normalizeOffset64 s1 (round64 (normalized - setWidth s1))\<rparr>)"

definition onScroll64 :: "scroller \<Rightarrow> scroller" where
  "onScroll64 s =
     (if autoWrite s \<or> setWidth s \<le> 0 then s
      else schedulePersist (syncFromCurrentScroll64 s))"

text \<open>
  \<open>belowBand\<close>: the sample scroller after the user has scrolled to the last double below
  1000, which JavaScript prints as \<^verbatim>\<open>999.9999999999999\<close>.
\<close>

definition belowBand :: scroller where
  "belowBand = band1000\<lparr>scrollLeft := 1000 - 1 / 2 ^ 43\<rparr>"

section \<open>Normalisation\<close>

lemma js_rem_nonneg:
  assumes "0 < b" "0 \<le> a"
  shows "js_rem a b = a - b * of_int \<lfloor>a / b\<rfloor>"
  using assms by (simp add: js_rem_def trunc_def)

lemma floor_rem_range:
  fixes a b :: real
  assumes "0 < b"
  shows "0 \<le> a - b * of_int \<lfloor>a / b\<rfloor>" and "a - b * of_int \<lfloor>a / b\<rfloor> < b"
proof -
  have "of_int \<lfloor>a / b\<rfloor> * b \<le> a"
    using assms by (rule floor_divide_lower)
  then show "0 \<le> a - b * of_int \<lfloor>a / b\<rfloor>"
    by (simp add: mult.commute)
  have "a < (of_int \<lfloor>a / b\<rfloor> + 1) * b"
    using assms by (rule floor_divide_upper)
  then show "a - b * of_int \<lfloor>a / b\<rfloor> < b"
    by (simp add: algebra_simps)
qed

text \<open>The remainder of a negative dividend is negative, and stays above \<open>- b\<close>.\<close>

lemma js_rem_lower:
  assumes "0 < b"
  shows "- b < js_rem a b"
proof (cases "0 \<le> a")
  case True
  have "js_rem a b = a - b * of_int \<lfloor>a / b\<rfloor>"
    by (rule js_rem_nonneg [OF assms True])
  with floor_rem_range(1) [OF assms, of a] assms show ?thesis by simp
next
  case False
  then have neg: "a / b < 0" using assms by (simp add: divide_neg_pos)
  then have eq: "js_rem a b = a - b * of_int \<lceil>a / b\<rceil>"
    by (simp add: js_rem_def trunc_def)
  have "of_int \<lceil>a / b\<rceil> - 1 < a / b"
    using ceiling_correct [of "a / b"] by simp
  then have "(of_int \<lceil>a / b\<rceil> - 1) * b < a"
    using assms by (simp add: pos_less_divide_eq)
  then show ?thesis
    unfolding eq by (simp add: algebra_simps)
qed

text \<open>
  On a positive width the two remainders of \<open>normalizeOffset\<close> compute the remainder of the
  floored division, whatever the sign of the argument.
\<close>

lemma normalizeOffset_floor:
  assumes "0 < setWidth s"
  shows "normalizeOffset s v = v - setWidth s * of_int \<lfloor>v / setWidth s\<rfloor>"
proof -
  define w where "w = setWidth s"
  define k where "k = trunc (v / w)"
  have w: "0 < w" using assms by (simp add: w_def)
  have r: "js_rem v w = v - w * of_int k"
    by (simp add: js_rem_def k_def)
  have pos: "0 \<le> js_rem v w + w"
    using js_rem_lower [OF w, of v] by simp
  have "(js_rem v w + w) / w = v / w + of_int (1 - k)"
    using w by (simp add: r field_simps)
  then have fl: "\<lfloor>(js_rem v w + w) / w\<rfloor> = \<lfloor>v / w\<rfloor> + (1 - k)"
    by (simp only: floor_add_int)
  have "js_rem (js_rem v w + w) w = js_rem v w + w - w * of_int \<lfloor>(js_rem v w + w) / w\<rfloor>"
    using w pos by (rule js_rem_nonneg)
  also have "\<dots> = v - w * of_int \<lfloor>v / w\<rfloor>"
    unfolding fl by (simp add: r algebra_simps)
  finally show ?thesis
    using w by (simp add: normalizeOffset_def w_def)
qed

lemma normalizeOffset_range:
  assumes "0 < setWidth s"
  shows "0 \<le> normalizeOffset s v" and "normalizeOffset s v < setWidth s"
  using floor_rem_range [OF assms, of v] by (simp_all add: normalizeOffset_floor [OF assms])



text \<open>
  C5. On a positive \<open>setWidth\<close>, \<open>normalizeOffset v\<close> is
  \<^verbatim>\<open>((v % setWidth) + setWidth) % setWidth\<close> and lies in the half-open interval from 0 to
  \<open>setWidth\<close>, for every real \<open>v\<close>, negative ones included.
\<close>

theorem normalizeOffset_in_band:
  assumes "0 < setWidth s"
  shows "normalizeOffset s v = js_rem (js_rem v (setWidth s) + setWidth s) (setWidth s)
    \<and> 0 \<le> normalizeOffset s v \<and> normalizeOffset s v < setWidth s"
proof -
  have eq: "normalizeOffset s v = js_rem (js_rem v (setWidth s) + setWidth s) (setWidth s)"
    using assms by (simp add: normalizeOffset_def)
  show ?thesis
    by (intro conjI eq normalizeOffset_range [OF assms])
qed

theorem normalizeOffset_in_band_witness:
  "0 < setWidth band1000
    \<and> normalizeOffset band1000 (- 1) = 999
    \<and> 0 \<le> normalizeOffset band1000 (- 1)
    \<and> normalizeOffset band1000 (- 1) < setWidth band1000"
proof -
  have w: "0 < setWidth band1000" by (simp add: band1000_def)
  have "js_rem (js_rem (- 1) (setWidth band1000) + setWidth band1000) (setWidth band1000) = 999"
    by (simp add: band1000_def js_rem_def trunc_def ceiling_def)
  with normalizeOffset_in_band [OF w, of "- 1"] w show ?thesis by simp
qed

lemma normalizeOffset_update [simp]:
  "normalizeOffset (s\<lparr>paused := a\<rparr>) = normalizeOffset s"
  "normalizeOffset (s\<lparr>savedPos := b\<rparr>) = normalizeOffset s"
  "normalizeOffset (s\<lparr>autoWrite := c\<rparr>) = normalizeOffset s"
  "normalizeOffset (s\<lparr>lastTs := d\<rparr>) = normalizeOffset s"
  "normalizeOffset (s\<lparr>persistTimer := e\<rparr>) = normalizeOffset s"
  "normalizeOffset (s\<lparr>scrollLeft := f\<rparr>) = normalizeOffset s"
  "normalizeOffset (s\<lparr>storage := g\<rparr>) = normalizeOffset s"
  "normalizeOffset (s\<lparr>timeouts := h\<rparr>) = normalizeOffset s"
  "normalizeOffset (s\<lparr>nextTimeout := i\<rparr>) = normalizeOffset s"
  by (simp_all add: normalizeOffset_def fun_eq_iff)

lemma normalizeOffset_setScrollSafely [simp]:
  "normalizeOffset (setScrollSafely x s) = normalizeOffset s"
  by (simp add: setScrollSafely_def)

lemma setScrollSafely_fields [simp]:
  "scrollLeft (setScrollSafely x s) = x"
  "savedPos (setScrollSafely x s) = savedPos s"
  "setWidth (setScrollSafely x s) = setWidth s"
  "autoWrite (setScrollSafely x s) = False"
  "lastTs (setScrollSafely x s) = lastTs s"
  "paused (setScrollSafely x s) = paused s"
  "persistTimer (setScrollSafely x s) = persistTimer s"
  "timeouts (setScrollSafely x s) = timeouts s"
  "nextTimeout (setScrollSafely x s) = nextTimeout s"
  "storage (setScrollSafely x s) = storage s"
  by (simp_all add: setScrollSafely_def)

section \<open>The animation frame\<close>

lemma tick_paused:
  "paused s \<Longrightarrow> tick ts s = s\<lparr>lastTs := ts\<rparr>"
  by (simp add: tick_def Let_def)

lemma tick_running:
  assumes "\<not> paused s" "0 < setWidth s"
  shows "tick ts s =
    setScrollSafely
      (setWidth s + normalizeOffset s (savedPos s + speedPxPerSecond * ((if lastTs s = 0 then 0 else ts - lastTs s) / 1000)))
      (s\<lparr>lastTs := ts,
         savedPos := normalizeOffset s (savedPos s + speedPxPerSecond * ((if lastTs s = 0 then 0 else ts - lastTs s) / 1000))\<rparr>)"
  using assms by (simp add: tick_def Let_def)

text \<open>
  C8. While \<open>paused\<close> holds, a frame changes \<open>lastTs\<close> and nothing else, whatever its
  timestamp: \<open>savedPos\<close> and the visible position stay as they are.
\<close>

theorem tick_paused_keeps_position:
  assumes "paused s"
  shows "tick ts s = s\<lparr>lastTs := ts\<rparr>
    \<and> savedPos (tick ts s) = savedPos s \<and> scrollLeft (tick ts s) = scrollLeft s"
  using assms by (simp add: tick_paused)

theorem tick_paused_keeps_position_witness:
  "paused (onMouseEnter (band1000\<lparr>savedPos := 300, lastTs := 1000, scrollLeft := 1300\<rparr>))
    \<and> tick 1500 (onMouseEnter (band1000\<lparr>savedPos := 300, lastTs := 1000, scrollLeft := 1300\<rparr>))
        = (onMouseEnter (band1000\<lparr>savedPos := 300, lastTs := 1000, scrollLeft := 1300\<rparr>))\<lparr>lastTs := 1500\<rparr>
    \<and> savedPos (tick 1500 (onMouseEnter (band1000\<lparr>savedPos := 300, lastTs := 1000, scrollLeft := 1300\<rparr>))) = 300
    \<and> scrollLeft (tick 1500 (onMouseEnter (band1000\<lparr>savedPos := 300, lastTs := 1000, scrollLeft := 1300\<rparr>))) = 1300"
proof -
  have p: "paused (onMouseEnter (band1000\<lparr>savedPos := 300, lastTs := 1000, scrollLeft := 1300\<rparr>))"
    by (simp add: onMouseEnter_def)
  show ?thesis
    using p tick_paused_keeps_position [OF p, of 1500] by (simp add: onMouseEnter_def)
qed

text \<open>
  C3. A frame of a scroller that is not paused, on a positive width, advances \<open>savedPos\<close>
  by the speed times the seconds since the baseline \<open>lastTs\<close> (no seconds at all when
  there is no baseline yet, which is \<open>lastTs = 0\<close>), wraps it into the band, writes
  \<open>setWidth + savedPos\<close> to the container and makes its timestamp the new baseline.
\<close>

theorem tick_advances:
  assumes "\<not> paused s" and "0 < setWidth s"
  shows "savedPos (tick ts s) =
        normalizeOffset s
          (savedPos s + speedPxPerSecond * (if lastTs s = 0 then 0 else (ts - lastTs s) / 1000))
    \<and> 0 \<le> savedPos (tick ts s) \<and> savedPos (tick ts s) < setWidth s
    \<and> scrollLeft (tick ts s) = setWidth s + savedPos (tick ts s)
    \<and> lastTs (tick ts s) = ts"
proof -
  have t: "tick ts s =
    setScrollSafely
      (setWidth s + normalizeOffset s (savedPos s + speedPxPerSecond * ((if lastTs s = 0 then 0 else ts - lastTs s) / 1000)))
      (s\<lparr>lastTs := ts,
         savedPos := normalizeOffset s (savedPos s + speedPxPerSecond * ((if lastTs s = 0 then 0 else ts - lastTs s) / 1000))\<rparr>)"
    by (rule tick_running [OF assms])
  have a: "savedPos (tick ts s) =
        normalizeOffset s
          (savedPos s + speedPxPerSecond * (if lastTs s = 0 then 0 else (ts - lastTs s) / 1000))"
    unfolding t by simp
  have b: "0 \<le> savedPos (tick ts s)" "savedPos (tick ts s) < setWidth s"
    unfolding a by (rule normalizeOffset_range [OF assms(2)])+
  have c: "scrollLeft (tick ts s) = setWidth s + savedPos (tick ts s)"
    unfolding t by simp
  have d: "lastTs (tick ts s) = ts"
    unfolding t by simp
  show ?thesis
    by (intro conjI a b c d)
qed

theorem tick_advances_witness:
  "\<not> paused (band1000\<lparr>savedPos := 990, lastTs := 5000\<rparr>)
    \<and> 0 < setWidth (band1000\<lparr>savedPos := 990, lastTs := 5000\<rparr>)
    \<and> speedPxPerSecond = 30
    \<and> savedPos (tick 6000 (band1000\<lparr>savedPos := 990, lastTs := 5000\<rparr>)) = 20
    \<and> scrollLeft (tick 6000 (band1000\<lparr>savedPos := 990, lastTs := 5000\<rparr>)) = 1020
    \<and> lastTs (tick 6000 (band1000\<lparr>savedPos := 990, lastTs := 5000\<rparr>)) = 6000"
proof -
  have p: "\<not> paused (band1000\<lparr>savedPos := 990, lastTs := 5000\<rparr>)"
    and w: "0 < setWidth (band1000\<lparr>savedPos := 990, lastTs := 5000\<rparr>)"
    by (simp_all add: band1000_def)
  have n: "normalizeOffset (band1000\<lparr>savedPos := 990, lastTs := 5000\<rparr>)
        (savedPos (band1000\<lparr>savedPos := 990, lastTs := 5000\<rparr>) + speedPxPerSecond *
          (if lastTs (band1000\<lparr>savedPos := 990, lastTs := 5000\<rparr>) = 0 then 0
           else (6000 - lastTs (band1000\<lparr>savedPos := 990, lastTs := 5000\<rparr>)) / 1000)) = 20"
    by (simp add: band1000_def speedPxPerSecond_def normalizeOffset_def js_rem_def trunc_def)
  show ?thesis
    using p w tick_advances [OF p w, of 6000] unfolding n
    by (simp add: speedPxPerSecond_def band1000_def)
qed

section \<open>Resize\<close>

lemma onResize_zero:
  "w \<le> 0 \<Longrightarrow> onResize w s = s\<lparr>setWidth := w\<rparr>"
  by (simp add: onResize_def Let_def)

lemma onResize_positive:
  assumes "0 < w"
  shows "onResize w s =
    setScrollSafely
      (w + normalizeOffset (s\<lparr>setWidth := w\<rparr>)
             (if 0 < setWidth s then (savedPos s / setWidth s) * w else savedPos s))
      (s\<lparr>setWidth := w,
         savedPos := normalizeOffset (s\<lparr>setWidth := w\<rparr>)
             (if 0 < setWidth s then (savedPos s / setWidth s) * w else savedPos s)\<rparr>)"
  using assms by (simp add: onResize_def Let_def)

lemma setWidth_onResize:
  "setWidth (onResize w s) = w"
  by (cases "0 < w") (simp_all add: onResize_positive onResize_zero)

text \<open>
  C4. A resize stores the width measured anew. When the new and the previous width are
  positive, \<open>savedPos\<close> is scaled by their ratio and then normalised on the new width; when
  the new width is positive, the container is written to \<open>setWidth + savedPos\<close>.
\<close>

theorem onResize_rescales:
  "setWidth (onResize w s) = w
    \<and> (0 < w \<and> 0 < setWidth s \<longrightarrow>
         savedPos (onResize w s) = normalizeOffset (onResize w s) (savedPos s * (w / setWidth s)))
    \<and> (0 < w \<longrightarrow>
         0 \<le> savedPos (onResize w s) \<and> savedPos (onResize w s) < w
         \<and> scrollLeft (onResize w s) = setWidth (onResize w s) + savedPos (onResize w s))"
proof (cases "0 < w")
  case False
  then show ?thesis by (simp add: setWidth_onResize)
next
  case True
  have sw: "setWidth (onResize w s) = w"
    by (rule setWidth_onResize)
  have pos: "0 < setWidth (s\<lparr>setWidth := w\<rparr>)"
    using True by simp
  have no: "normalizeOffset (onResize w s) = normalizeOffset (s\<lparr>setWidth := w\<rparr>)"
    by (simp add: fun_eq_iff normalizeOffset_def sw)
  have sp: "savedPos (onResize w s) = normalizeOffset (s\<lparr>setWidth := w\<rparr>)
             (if 0 < setWidth s then (savedPos s / setWidth s) * w else savedPos s)"
    by (simp add: onResize_positive [OF True])
  have sl: "scrollLeft (onResize w s) = w + savedPos (onResize w s)"
    by (simp add: onResize_positive [OF True])
  have r: "0 \<le> savedPos (onResize w s)" "savedPos (onResize w s) < w"
    unfolding sp using normalizeOffset_range [OF pos] by simp_all
  show ?thesis
    using True r sl sw by (simp add: no sp)
qed

theorem onResize_rescales_witness:
  "setWidth (onResize 2000 (band1000\<lparr>savedPos := 500, scrollLeft := 1500\<rparr>)) = 2000
    \<and> 0 < setWidth (band1000\<lparr>savedPos := 500, scrollLeft := 1500\<rparr>)
    \<and> savedPos (onResize 2000 (band1000\<lparr>savedPos := 500, scrollLeft := 1500\<rparr>)) = 1000
    \<and> scrollLeft (onResize 2000 (band1000\<lparr>savedPos := 500, scrollLeft := 1500\<rparr>)) = 3000"
proof -
  have n: "normalizeOffset (onResize 2000 (band1000\<lparr>savedPos := 500, scrollLeft := 1500\<rparr>))
             (savedPos (band1000\<lparr>savedPos := 500, scrollLeft := 1500\<rparr>)
               * (2000 / setWidth (band1000\<lparr>savedPos := 500, scrollLeft := 1500\<rparr>))) = 1000"
    by (simp add: normalizeOffset_def setWidth_onResize band1000_def js_rem_def trunc_def)
  show ?thesis
    using onResize_rescales [of 2000 "band1000\<lparr>savedPos := 500, scrollLeft := 1500\<rparr>"]
    unfolding n by (simp add: band1000_def)
qed

section \<open>The scroll listener\<close>

lemma schedulePersist_fields [simp]:
  "scrollLeft (schedulePersist s) = scrollLeft s"
  "savedPos (schedulePersist s) = savedPos s"
  "setWidth (schedulePersist s) = setWidth s"
  "autoWrite (schedulePersist s) = autoWrite s"
  "lastTs (schedulePersist s) = lastTs s"
  "paused (schedulePersist s) = paused s"
  "storage (schedulePersist s) = storage s"
  "persistTimer (schedulePersist s) = Some (nextTimeout s)"
  "nextTimeout (schedulePersist s) = Suc (nextTimeout s)"
  by (simp_all add: schedulePersist_def setTimeout_def clearTimeout_def Let_def split: option.splits)

lemma timeouts_schedulePersist:
  "timeouts (schedulePersist s) =
     (if truthy (persistTimer s) then removeAll (the (persistTimer s)) (timeouts s) else timeouts s)
       @ [nextTimeout s]"
  by (simp add: schedulePersist_def setTimeout_def clearTimeout_def truthy_def Let_def split: option.splits)

lemma normalizeOffset_schedulePersist [simp]:
  "normalizeOffset (schedulePersist s) = normalizeOffset s"
  by (simp add: fun_eq_iff normalizeOffset_def)






section \<open>The scroller after its setup\<close>

lemma setupAutoScroll_fields:
  assumes "setupAutoScroll c w ls = Some s0"
  shows "setWidth s0 = w"
    and "savedPos s0 = normalizeOffset s0 (restored ls)"
    and "0 < w \<Longrightarrow> scrollLeft s0 = w + savedPos s0"
    and "\<not> paused s0" and "\<not> autoWrite s0" and "lastTs s0 = 0"
    and "persistTimer s0 = None" and "timeouts s0 = []" and "nextTimeout s0 = 1"
    and "storage s0 = ls"
  using assms
  by (auto simp: setupAutoScroll_def Let_def normalizeOffset_def split: option.splits if_splits)

lemma setup_band1000:
  "setupAutoScroll (Some 0) 1000 emptyStorage = Some band1000"
  by (simp add: setupAutoScroll_def Let_def restored_def getItem_def emptyStorage_def
      normalizeOffset_def js_rem_def trunc_def setScrollSafely_def band1000_def)

section \<open>Storage that fails\<close>

lemma persistPosition_cases:
  "persistPosition s =
     Inr (if setFails (storage s) = None
          then s\<lparr>storage := (storage s)\<lparr>item := Finite (savedPos s)\<rparr>\<rparr> else s)"
  by (simp add: persistPosition_def setItem_def split: option.splits)

lemma tick_storage:
  "tick ts (s\<lparr>storage := ls\<rparr>) = (tick ts s)\<lparr>storage := ls\<rparr>"
  by (simp add: tick_def Let_def setScrollSafely_def)

lemma restored_failure:
  "getFails ls \<noteq> None \<or> \<not> isFinite (item ls) \<Longrightarrow> restored ls = 0"
  by (auto simp: restored_def getItem_def split: option.splits)

lemma normalizeOffset_zero:
  "normalizeOffset s 0 = 0"
  by (simp add: normalizeOffset_def js_rem_def trunc_def)

lemma dispatch_total:
  "\<exists>s'. dispatch ev s = Inr s'"
  by (cases ev)
     (simp_all add: dispatch_def onPageHide_def onVisibilityChange_def persistTimeout_def
        persistPosition_cases)

lemma run_total:
  "\<exists>s'. run s evs = Inr s'"
proof (induction evs arbitrary: s)
  case Nil
  show ?case by simp
next
  case (Cons ev evs)
  obtain s1 where "dispatch ev s = Inr s1"
    using dispatch_total by blast
  with Cons.IH [of s1] show ?case by simp
qed

text \<open>
  C7. When the read of the stored offset throws, or the stored value is not a finite
  number, the setup leaves \<open>savedPos\<close> at 0. \<open>persistPosition\<close> always completes normally,
  and a frame after it is the frame without it, up to what the storage holds; when the
  write throws, \<open>persistPosition\<close> leaves the scroller as it was, also when it runs from
  the debounce timeout. No sequence of events ends in an exception.
\<close>

theorem storage_failures_are_absorbed:
  "(setupAutoScroll c w ls = Some s0 \<and> (getFails ls \<noteq> None \<or> \<not> isFinite (item ls)) \<longrightarrow>
      savedPos s0 = 0)
    \<and> (\<exists>s'. persistPosition s = Inr s' \<and> tick ts s' = (tick ts s)\<lparr>storage := storage s'\<rparr>)
    \<and> (setFails (storage s) \<noteq> None \<longrightarrow>
          persistPosition s = Inr s \<and> persistTimeout s = Inr (s\<lparr>persistTimer := None\<rparr>))
    \<and> (\<exists>s'. run s evs = Inr s')"
proof (intro conjI impI)
  assume a: "setupAutoScroll c w ls = Some s0 \<and> (getFails ls \<noteq> None \<or> \<not> isFinite (item ls))"
  then have "restored ls = 0"
    using restored_failure by blast
  with a show "savedPos s0 = 0"
    using setupAutoScroll_fields(2) [of c w ls s0] by (simp add: normalizeOffset_zero)
next
  show "\<exists>s'. persistPosition s = Inr s' \<and> tick ts s' = (tick ts s)\<lparr>storage := storage s'\<rparr>"
    using tick_storage [where s = s and ls = "storage s" and ts = ts] by (simp add: persistPosition_cases tick_storage)
next
  assume "setFails (storage s) \<noteq> None"
  then show "persistPosition s = Inr s"
    by (auto simp: persistPosition_cases)
next
  assume "setFails (storage s) \<noteq> None"
  then show "persistTimeout s = Inr (s\<lparr>persistTimer := None\<rparr>)"
    by (auto simp: persistTimeout_def persistPosition_cases)
next
  show "\<exists>s'. run s evs = Inr s'"
    by (rule run_total)
qed

theorem storage_failures_are_absorbed_witness:
  "setupAutoScroll (Some 0) 1000 \<lparr>item = Finite 250, getFails = Some SecurityError, setFails = None\<rparr>
      = Some (band1000\<lparr>storage := \<lparr>item = Finite 250, getFails = Some SecurityError, setFails = None\<rparr>\<rparr>)
    \<and> getFails \<lparr>item = Finite 250, getFails = Some SecurityError, setFails = None\<rparr> = Some SecurityError
    \<and> savedPos (band1000\<lparr>storage := \<lparr>item = Finite 250, getFails = Some SecurityError, setFails = None\<rparr>\<rparr>) = 0
    \<and> setupAutoScroll (Some 0) 1000 \<lparr>item = NaN, getFails = None, setFails = None\<rparr>
      = Some (band1000\<lparr>storage := \<lparr>item = NaN, getFails = None, setFails = None\<rparr>\<rparr>)
    \<and> \<not> isFinite (item \<lparr>item = NaN, getFails = None, setFails = None\<rparr>)
    \<and> savedPos (band1000\<lparr>storage := \<lparr>item = NaN, getFails = None, setFails = None\<rparr>\<rparr>) = 0
    \<and> setFails (storage (band1000\<lparr>savedPos := 20,
          storage := \<lparr>item = Finite 0, getFails = None, setFails = Some QuotaExceededError\<rparr>\<rparr>))
        = Some QuotaExceededError
    \<and> persistPosition (band1000\<lparr>savedPos := 20,
          storage := \<lparr>item = Finite 0, getFails = None, setFails = Some QuotaExceededError\<rparr>\<rparr>)
        = Inr (band1000\<lparr>savedPos := 20,
          storage := \<lparr>item = Finite 0, getFails = None, setFails = Some QuotaExceededError\<rparr>\<rparr>)"
proof -
  define blocked where
    "blocked = \<lparr>item = Finite 250, getFails = Some SecurityError, setFails = None\<rparr>"
  define corrupt where
    "corrupt = \<lparr>item = NaN, getFails = None, setFails = None\<rparr>"
  define S where
    "S = band1000\<lparr>savedPos := 20,
          storage := \<lparr>item = Finite 0, getFails = None, setFails = Some QuotaExceededError\<rparr>\<rparr>"
  have s1: "setupAutoScroll (Some 0) 1000 blocked = Some (band1000\<lparr>storage := blocked\<rparr>)"
    by (simp add: setupAutoScroll_def Let_def restored_def getItem_def blocked_def
        normalizeOffset_def js_rem_def trunc_def setScrollSafely_def band1000_def)
  have g: "getFails blocked = Some SecurityError"
    by (simp add: blocked_def)
  have s2: "setupAutoScroll (Some 0) 1000 corrupt = Some (band1000\<lparr>storage := corrupt\<rparr>)"
    by (simp add: setupAutoScroll_def Let_def restored_def getItem_def corrupt_def
        normalizeOffset_def js_rem_def trunc_def setScrollSafely_def band1000_def)
  have n: "\<not> isFinite (item corrupt)"
    by (simp add: corrupt_def)
  have q: "setFails (storage S) = Some QuotaExceededError"
    by (simp add: S_def)
  have a: "savedPos (band1000\<lparr>storage := blocked\<rparr>) = 0"
    using storage_failures_are_absorbed
      [of "Some 0" 1000 blocked "band1000\<lparr>storage := blocked\<rparr>"] s1 g
    by simp
  have b: "savedPos (band1000\<lparr>storage := corrupt\<rparr>) = 0"
    using storage_failures_are_absorbed
      [of "Some 0" 1000 corrupt "band1000\<lparr>storage := corrupt\<rparr>"] s2 n
    by blast
  have c: "persistPosition S = Inr S"
    using storage_failures_are_absorbed [of _ _ _ _ S] q by simp
  show ?thesis
    unfolding blocked_def [symmetric] corrupt_def [symmetric] S_def [symmetric]
    by (intro conjI s1 g a s2 n b q c)
qed

section \<open>The debounce timer\<close>

lemma singleSlot_same_timers:
  assumes "timeouts s' = timeouts s" "persistTimer s' = persistTimer s"
    "nextTimeout s' = nextTimeout s"
  shows "singleSlot s' = singleSlot s"
  using assms by (simp add: singleSlot_def)

lemma tick_timers:
  "timeouts (tick ts s) = timeouts s" "persistTimer (tick ts s) = persistTimer s"
  "nextTimeout (tick ts s) = nextTimeout s"
  by (simp_all add: tick_def Let_def)

lemma onResize_timers:
  "timeouts (onResize w s) = timeouts s" "persistTimer (onResize w s) = persistTimer s"
  "nextTimeout (onResize w s) = nextTimeout s"
  by (simp_all add: onResize_def Let_def)

lemma syncFromCurrentScroll_timers:
  "timeouts (syncFromCurrentScroll s) = timeouts s"
  "persistTimer (syncFromCurrentScroll s) = persistTimer s"
  "nextTimeout (syncFromCurrentScroll s) = nextTimeout s"
  by (simp_all add: syncFromCurrentScroll_def Let_def)

lemma singleSlot_schedulePersist:
  assumes "singleSlot s"
  shows "singleSlot (schedulePersist s)" and "timeouts (schedulePersist s) = [nextTimeout s]"
  using assms
  by (auto simp: singleSlot_def timeouts_schedulePersist truthy_def split: option.splits)

lemma singleSlot_onScroll:
  assumes "singleSlot s"
  shows "singleSlot (onScroll s)"
proof (cases "autoWrite s \<or> setWidth s \<le> 0")
  case True
  with assms show ?thesis by (simp add: onScroll_def)
next
  case False
  have "singleSlot (syncFromCurrentScroll s)"
    using assms by (simp add: singleSlot_same_timers [OF syncFromCurrentScroll_timers])
  then have "singleSlot (schedulePersist (syncFromCurrentScroll s))"
    by (rule singleSlot_schedulePersist(1))
  with False show ?thesis by (simp add: onScroll_def)
qed

text \<open>What the two flush listeners do to the slot before they persist.\<close>

lemma slot_cleared:
  assumes "singleSlot s"
  shows "(if truthy (persistTimer s)
          then (clearTimeout (persistTimer s) s)\<lparr>persistTimer := None\<rparr> else s)
         = s\<lparr>persistTimer := None, timeouts := []\<rparr>"
  using assms
  by (cases s) (auto simp: singleSlot_def truthy_def clearTimeout_def split: option.splits)

lemma onPageHide_flush:
  assumes "singleSlot s"
  shows "onPageHide s = persistPosition (s\<lparr>persistTimer := None, timeouts := []\<rparr>)"
  by (simp add: onPageHide_def slot_cleared [OF assms])

lemma onVisibilityChange_flush:
  assumes "singleSlot s"
  shows "onVisibilityChange True s = persistPosition (s\<lparr>persistTimer := None, timeouts := []\<rparr>)"
  by (simp add: onVisibilityChange_def slot_cleared [OF assms])

lemma singleSlot_persistPosition:
  assumes "singleSlot s" and "persistPosition s = Inr s'"
  shows "singleSlot s'"
  using assms by (auto simp: persistPosition_cases singleSlot_def split: if_splits)

lemma singleSlot_empty:
  "0 < nextTimeout s \<Longrightarrow> singleSlot (s\<lparr>persistTimer := None, timeouts := []\<rparr>)"
  by (simp add: singleSlot_def)

lemma singleSlot_dispatch:
  assumes "singleSlot s" and "dispatch ev s = Inr s'"
  shows "singleSlot s'"
proof (cases ev)
  case MouseEnter
  with assms show ?thesis by (auto simp: dispatch_def onMouseEnter_def singleSlot_def)
next
  case MouseLeave
  with assms show ?thesis by (auto simp: dispatch_def onMouseLeave_def singleSlot_def)
next
  case (UserScroll x)
  have "singleSlot (s\<lparr>scrollLeft := x\<rparr>)"
    using assms(1) by (simp add: singleSlot_same_timers [of "s\<lparr>scrollLeft := x\<rparr>" s])
  then have "singleSlot (onScroll (s\<lparr>scrollLeft := x\<rparr>))"
    by (rule singleSlot_onScroll)
  with assms(2) UserScroll show ?thesis by (auto simp: dispatch_def)
next
  case (Resize w)
  with assms show ?thesis
    by (auto simp: dispatch_def singleSlot_same_timers [OF onResize_timers])
next
  case PageHide
  have n: "0 < nextTimeout s" using assms(1) by (simp add: singleSlot_def)
  from assms(2) PageHide
  have "persistPosition (s\<lparr>persistTimer := None, timeouts := []\<rparr>) = Inr s'"
    by (simp add: dispatch_def onPageHide_flush [OF assms(1)])
  with singleSlot_empty [OF n] show ?thesis
    by (rule singleSlot_persistPosition)
next
  case (VisibilityChange hidden)
  show ?thesis
  proof (cases hidden)
    case True
    have n: "0 < nextTimeout s" using assms(1) by (simp add: singleSlot_def)
    from assms(2) VisibilityChange True
    have "persistPosition (s\<lparr>persistTimer := None, timeouts := []\<rparr>) = Inr s'"
      by (simp add: dispatch_def onVisibilityChange_flush [OF assms(1)])
    with singleSlot_empty [OF n] show ?thesis
      by (rule singleSlot_persistPosition)
  next
    case False
    with assms VisibilityChange show ?thesis
      by (simp add: dispatch_def onVisibilityChange_def)
  qed
next
  case (Frame ts)
  with assms show ?thesis
    by (auto simp: dispatch_def singleSlot_same_timers [OF tick_timers])
next
  case (Timeout t)
  show ?thesis
  proof (cases "t \<in> set (timeouts s)")
    case True
    then have "singleSlot (s\<lparr>timeouts := removeAll t (timeouts s), persistTimer := None\<rparr>)"
      using assms(1) by (auto simp: singleSlot_def split: option.splits)
    moreover have "persistPosition (s\<lparr>timeouts := removeAll t (timeouts s), persistTimer := None\<rparr>) = Inr s'"
      using assms(2) Timeout True by (simp add: dispatch_def persistTimeout_def)
    ultimately show ?thesis
      by (rule singleSlot_persistPosition)
  next
    case False
    with assms Timeout show ?thesis by (simp add: dispatch_def)
  qed
qed

lemma singleSlot_run:
  assumes "singleSlot s" and "run s evs = Inr s'"
  shows "singleSlot s'"
  using assms
proof (induction evs arbitrary: s)
  case Nil
  then show ?case by simp
next
  case (Cons ev evs)
  obtain s1 where d: "dispatch ev s = Inr s1"
    using dispatch_total by blast
  then have "singleSlot s1"
    using Cons.prems(1) singleSlot_dispatch by blast
  moreover have "run s1 evs = Inr s'"
    using Cons.prems(2) d by simp
  ultimately show ?case
    by (rule Cons.IH)
qed

lemma singleSlot_setup:
  assumes "setupAutoScroll c w ls = Some s0"
  shows "singleSlot s0"
  using setupAutoScroll_fields(7,8,9) [OF assms] by (simp add: singleSlot_def)

lemma singleSlot_length:
  "singleSlot s \<Longrightarrow> length (timeouts s) \<le> 1"
  by (simp add: singleSlot_def split: option.splits)

lemma flushed:
  "\<exists>s'. persistPosition (s\<lparr>persistTimer := None, timeouts := []\<rparr>) = Inr s'
     \<and> timeouts s' = [] \<and> persistTimer s' = None
     \<and> storage s' = (if setFails (storage s) = None
                      then (storage s)\<lparr>item := Finite (savedPos s)\<rparr> else storage s)"
  by (simp add: persistPosition_cases)

lemma run_two_scrolls:
  "run band1000 [UserScroll 999, UserScroll 1200] =
     Inr (band1000\<lparr>scrollLeft := 1200, savedPos := 200, persistTimer := Some 2,
            timeouts := [2], nextTimeout := 3\<rparr>)"
  by (simp add: band1000_def dispatch_def onScroll_def syncFromCurrentScroll_def Let_def
      normalizeToMiddleBand_def normalizeOffset_def js_rem_def trunc_def ceiling_def
      setScrollSafely_def schedulePersist_def setTimeout_def clearTimeout_def truthy_def)

text \<open>
  C9. After any sequence of events on a scroller that was set up, the browser has at most
  one persist timeout pending. In every such state \<open>schedulePersist\<close> leaves exactly the
  timeout it has just created pending, having cancelled the one before; and the listeners
  of page-hide and of a visibility change to hidden empty the slot and then call
  \<open>persistPosition\<close>, which stores \<open>savedPos\<close> unless the storage refuses the write.
\<close>

theorem persist_timer_single_slot:
  assumes "setupAutoScroll c w ls = Some s0"
  shows "\<exists>s. run s0 evs = Inr s
      \<and> length (timeouts s) \<le> 1
      \<and> timeouts (schedulePersist s) = [nextTimeout s]
      \<and> persistTimer (schedulePersist s) = Some (nextTimeout s)
      \<and> nextTimeout s \<notin> set (timeouts s)
      \<and> onPageHide s = persistPosition (s\<lparr>persistTimer := None, timeouts := []\<rparr>)
      \<and> onVisibilityChange True s = persistPosition (s\<lparr>persistTimer := None, timeouts := []\<rparr>)
      \<and> (\<exists>s'. onPageHide s = Inr s' \<and> timeouts s' = [] \<and> persistTimer s' = None
            \<and> storage s' = (if setFails (storage s) = None
                             then (storage s)\<lparr>item := Finite (savedPos s)\<rparr> else storage s))"
proof -
  obtain s where r: "run s0 evs = Inr s"
    using run_total by blast
  have inv: "singleSlot s"
    using singleSlot_setup [OF assms] r by (rule singleSlot_run)
  have a: "length (timeouts s) \<le> 1"
    using inv by (rule singleSlot_length)
  have b: "timeouts (schedulePersist s) = [nextTimeout s]"
    using inv by (rule singleSlot_schedulePersist(2))
  have c: "persistTimer (schedulePersist s) = Some (nextTimeout s)"
    by simp
  have d: "nextTimeout s \<notin> set (timeouts s)"
    using inv by (auto simp: singleSlot_def list_all_iff)
  have e: "onPageHide s = persistPosition (s\<lparr>persistTimer := None, timeouts := []\<rparr>)"
    using inv by (rule onPageHide_flush)
  have f: "onVisibilityChange True s = persistPosition (s\<lparr>persistTimer := None, timeouts := []\<rparr>)"
    using inv by (rule onVisibilityChange_flush)
  have g: "\<exists>s'. onPageHide s = Inr s' \<and> timeouts s' = [] \<and> persistTimer s' = None
            \<and> storage s' = (if setFails (storage s) = None
                             then (storage s)\<lparr>item := Finite (savedPos s)\<rparr> else storage s)"
    unfolding e by (rule flushed)
  show ?thesis
    using r a b c d e f g by blast
qed

theorem persist_timer_single_slot_witness:
  "setupAutoScroll (Some 0) 1000 emptyStorage = Some band1000
    \<and> run band1000 [UserScroll 999, UserScroll 1200] =
        Inr (band1000\<lparr>scrollLeft := 1200, savedPos := 200, persistTimer := Some 2,
               timeouts := [2], nextTimeout := 3\<rparr>)
    \<and> length (timeouts (band1000\<lparr>scrollLeft := 1200, savedPos := 200, persistTimer := Some 2,
               timeouts := [2], nextTimeout := 3\<rparr>)) \<le> 1
    \<and> timeouts (schedulePersist (band1000\<lparr>scrollLeft := 1200, savedPos := 200,
               persistTimer := Some 2, timeouts := [2], nextTimeout := 3\<rparr>)) = [3]
    \<and> (\<exists>s'. onPageHide (band1000\<lparr>scrollLeft := 1200, savedPos := 200,
               persistTimer := Some 2, timeouts := [2], nextTimeout := 3\<rparr>) = Inr s'
          \<and> timeouts s' = [] \<and> persistTimer s' = None \<and> item (storage s') = Finite 200)"
proof -
  define T where
    "T = band1000\<lparr>scrollLeft := 1200, savedPos := 200, persistTimer := Some 2,
               timeouts := [2], nextTimeout := 3\<rparr>"
  have su: "setupAutoScroll (Some 0) 1000 emptyStorage = Some band1000"
    by (rule setup_band1000)
  have r: "run band1000 [UserScroll 999, UserScroll 1200] = Inr T"
    unfolding T_def by (rule run_two_scrolls)
  have n: "nextTimeout T = 3" and sp: "savedPos T = 200" and ok: "setFails (storage T) = None"
    by (simp_all add: T_def band1000_def emptyStorage_def)
  from persist_timer_single_slot [OF su, of "[UserScroll 999, UserScroll 1200]"]
  obtain s where s: "run band1000 [UserScroll 999, UserScroll 1200] = Inr s"
    and a0: "length (timeouts s) \<le> 1"
    and b0: "timeouts (schedulePersist s) = [nextTimeout s]"
    and c0: "\<exists>s'. onPageHide s = Inr s' \<and> timeouts s' = [] \<and> persistTimer s' = None
            \<and> storage s' = (if setFails (storage s) = None
                             then (storage s)\<lparr>item := Finite (savedPos s)\<rparr> else storage s)"
    by blast
  have st: "s = T"
    using s r by simp
  have a: "length (timeouts T) \<le> 1"
    using a0 unfolding st .
  have b: "timeouts (schedulePersist T) = [nextTimeout T]"
    using b0 unfolding st .
  have c: "\<exists>s'. onPageHide T = Inr s' \<and> timeouts s' = [] \<and> persistTimer s' = None
            \<and> storage s' = (if setFails (storage T) = None
                             then (storage T)\<lparr>item := Finite (savedPos T)\<rparr> else storage T)"
    using c0 unfolding st .
  have b': "timeouts (schedulePersist T) = [3]"
    using b unfolding n .
  from c obtain s' where h: "onPageHide T = Inr s'" "timeouts s' = []" "persistTimer s' = None"
    and "storage s' = (if setFails (storage T) = None
                       then (storage T)\<lparr>item := Finite (savedPos T)\<rparr> else storage T)"
    by blast
  then have "item (storage s') = Finite 200"
    by (simp add: ok sp)
  with h have c': "\<exists>s'. onPageHide T = Inr s' \<and> timeouts s' = [] \<and> persistTimer s' = None
            \<and> item (storage s') = Finite 200"
    by blast
  show ?thesis
    unfolding T_def [symmetric] by (intro conjI su r a b' c')
qed

section \<open>A band without width\<close>

lemma flat_dispatch:
  assumes "setWidth s \<le> 0" and "\<not> positiveResize ev" and "dispatch ev s = Inr s'"
  shows "setWidth s' \<le> 0 \<and> savedPos s' = savedPos s"
proof (cases ev)
  case MouseEnter
  with assms show ?thesis by (auto simp: dispatch_def onMouseEnter_def)
next
  case MouseLeave
  with assms show ?thesis by (auto simp: dispatch_def onMouseLeave_def)
next
  case (UserScroll x)
  with assms show ?thesis by (auto simp: dispatch_def onScroll_def)
next
  case (Resize w)
  with assms show ?thesis by (auto simp: dispatch_def onResize_zero)
next
  case PageHide
  with assms show ?thesis
    by (auto simp: dispatch_def onPageHide_def persistPosition_cases clearTimeout_def
        split: if_splits option.splits)
next
  case (VisibilityChange hidden)
  with assms show ?thesis
    by (auto simp: dispatch_def onVisibilityChange_def persistPosition_cases clearTimeout_def
        split: if_splits option.splits)
next
  case (Frame ts)
  with assms show ?thesis by (auto simp: dispatch_def tick_def Let_def)
next
  case (Timeout t)
  with assms show ?thesis
    by (auto simp: dispatch_def persistTimeout_def persistPosition_cases split: if_splits)
qed

lemma flat_run:
  assumes "setWidth s \<le> 0" and "list_all (\<lambda>ev. \<not> positiveResize ev) evs"
    and "run s evs = Inr s'"
  shows "setWidth s' \<le> 0 \<and> savedPos s' = savedPos s"
  using assms
proof (induction evs arbitrary: s)
  case Nil
  then show ?case by simp
next
  case (Cons ev evs)
  obtain s1 where d: "dispatch ev s = Inr s1"
    using dispatch_total by blast
  have ne: "\<not> positiveResize ev" and rest: "list_all (\<lambda>ev. \<not> positiveResize ev) evs"
    using Cons.prems(2) by simp_all
  have f: "setWidth s1 \<le> 0 \<and> savedPos s1 = savedPos s"
    by (rule flat_dispatch [OF Cons.prems(1) ne d])
  then have w1: "setWidth s1 \<le> 0" by simp
  have r1: "run s1 evs = Inr s'"
    using Cons.prems(3) d by simp
  have "setWidth s' \<le> 0 \<and> savedPos s' = savedPos s1"
    by (rule Cons.IH [OF w1 rest r1])
  with f show ?case by simp
qed

text \<open>
  C10. When the setup measures a width that is not positive, \<open>normalizeOffset\<close> is 0
  everywhere, so \<open>savedPos\<close> is 0 after the setup whatever the storage held. It is still 0
  after any events among which no resize measures a positive width, and the first resize
  to a positive width \<open>w'\<close> then starts the scroller at offset 0, position \<open>w'\<close>.
\<close>

theorem zero_width_setup_discards_offset:
  assumes "setupAutoScroll c w ls = Some s0" and "w \<le> 0"
    and "list_all (\<lambda>ev. \<not> positiveResize ev) evs" and "0 < w'"
  shows "normalizeOffset s0 v = 0 \<and> savedPos s0 = 0
    \<and> (\<exists>s. run s0 evs = Inr s \<and> setWidth s \<le> 0 \<and> savedPos s = 0
          \<and> savedPos (onResize w' s) = 0 \<and> scrollLeft (onResize w' s) = w')"
proof -
  have w0: "setWidth s0 \<le> 0"
    using setupAutoScroll_fields(1) [OF assms(1)] assms(2) by simp
  then have a: "normalizeOffset s0 v = 0" for v
    by (simp add: normalizeOffset_def)
  have b: "savedPos s0 = 0"
    using setupAutoScroll_fields(2) [OF assms(1)] a by simp
  obtain s where r: "run s0 evs = Inr s"
    using run_total by blast
  have f: "setWidth s \<le> 0 \<and> savedPos s = 0"
    using flat_run [OF w0 assms(3) r] b by simp
  then have nw: "\<not> 0 < setWidth s" by simp
  have c: "savedPos (onResize w' s) = 0"
    using f nw by (simp add: onResize_positive [OF assms(4)] normalizeOffset_zero)
  have d: "scrollLeft (onResize w' s) = w'"
    using f nw by (simp add: onResize_positive [OF assms(4)] normalizeOffset_zero)
  show ?thesis
    using a b r f c d by blast
qed

theorem zero_width_setup_discards_offset_witness:
  "restored \<lparr>item = Finite 250, getFails = None, setFails = None\<rparr> = 250
    \<and> setupAutoScroll (Some 0) 0 \<lparr>item = Finite 250, getFails = None, setFails = None\<rparr>
        = Some (band1000\<lparr>setWidth := 0, scrollLeft := 0,
                  storage := \<lparr>item = Finite 250, getFails = None, setFails = None\<rparr>\<rparr>)
    \<and> list_all (\<lambda>ev. \<not> positiveResize ev) [Frame 16, UserScroll 40, Resize 0, Frame 32]
    \<and> savedPos (band1000\<lparr>setWidth := 0, scrollLeft := 0,
                  storage := \<lparr>item = Finite 250, getFails = None, setFails = None\<rparr>\<rparr>) = 0
    \<and> (\<exists>s. run (band1000\<lparr>setWidth := 0, scrollLeft := 0,
                  storage := \<lparr>item = Finite 250, getFails = None, setFails = None\<rparr>\<rparr>)
               [Frame 16, UserScroll 40, Resize 0, Frame 32] = Inr s
          \<and> savedPos s = 0
          \<and> savedPos (onResize 1000 s) = 0 \<and> scrollLeft (onResize 1000 s) = 1000)"
proof -
  define ls where "ls = \<lparr>item = Finite 250, getFails = None, setFails = None\<rparr>"
  define Z where "Z = band1000\<lparr>setWidth := 0, scrollLeft := 0, storage := ls\<rparr>"
  have re: "restored ls = 250"
    by (simp add: restored_def getItem_def ls_def)
  have su: "setupAutoScroll (Some 0) 0 ls = Some Z"
    by (simp add: setupAutoScroll_def Let_def re normalizeOffset_def Z_def band1000_def)
  have fl: "list_all (\<lambda>ev. \<not> positiveResize ev) [Frame 16, UserScroll 40, Resize 0, Frame 32]"
    by simp
  from zero_width_setup_discards_offset [OF su _ fl, of 1000]
  have a: "savedPos Z = 0"
    and b: "\<exists>s. run Z [Frame 16, UserScroll 40, Resize 0, Frame 32] = Inr s
          \<and> savedPos s = 0
          \<and> savedPos (onResize 1000 s) = 0 \<and> scrollLeft (onResize 1000 s) = 1000"
    by auto
  show ?thesis
    unfolding ls_def [symmetric] Z_def [symmetric] by (intro conjI re su fl a b)
qed

section \<open>The upper edge of the middle band, on doubles\<close>

lemma belowBand_fields:
  "setWidth belowBand = 1000" "scrollLeft belowBand = 1000 - 1 / 2 ^ 43"
  "\<not> autoWrite belowBand" "savedPos belowBand = 0"
  by (simp_all add: belowBand_def band1000_def)

lemma round64_values:
  "round64 (1000 - 1 / 2 ^ 43) = 1000 - 1 / 2 ^ 43"
  "round64 (- (1 / 2 ^ 43)) = - (1 / 2 ^ 43)"
  "round64 (2000 - 1 / 2 ^ 43) = 2000"
  "round64 (1000 + 1 / 2 ^ 43) = 1000 + 1 / 2 ^ 43"
  "round64 1000 = 1000"
  by code_simp+

text \<open>The doubles nearest to a tenth and to a third, as \<open>round64\<close> computes them.\<close>

lemma round64_fractions:
  "round64 (1 / 10) = 3602879701896397 / 2 ^ 55"
  "round64 (1 / 3) = 6004799503160661 / 2 ^ 54"
  by code_simp+

lemma js_rem_values:
  "js_rem (- (1 / 2 ^ 43)) 1000 = - (1 / 2 ^ 43)"
  "js_rem (1000 - 1 / 2 ^ 43) 1000 = 1000 - 1 / 2 ^ 43"
  "js_rem 1000 1000 = 0"
  by code_simp+

lemma normalizeOffset64_belowBand:
  "normalizeOffset64 belowBand v = js_rem (round64 (js_rem v 1000 + 1000)) 1000"
  by (simp add: normalizeOffset64_def belowBand_fields)

lemma normalizeToMiddleBand64_belowBand:
  "normalizeToMiddleBand64 belowBand v =
     round64 (1000 + normalizeOffset64 belowBand (round64 (v - 1000)))"
  by (simp add: normalizeToMiddleBand64_def belowBand_fields)

lemma normalizeOffset64_edge:
  "normalizeOffset64 belowBand (- (1 / 2 ^ 43)) = 1000 - 1 / 2 ^ 43"
proof -
  have a: "- (1 / 2 ^ 43) + 1000 = (1000 - 1 / 2 ^ 43 :: real)"
    by simp
  show ?thesis
    by (simp only: normalizeOffset64_belowBand js_rem_values a round64_values)
qed

lemma normalizeOffset64_start:
  "normalizeOffset64 belowBand 1000 = 0"
proof -
  have a: "0 + 1000 = (1000 :: real)"
    by simp
  show ?thesis
    by (simp only: normalizeOffset64_belowBand js_rem_values a round64_values)
qed

lemma normalizeToMiddleBand64_edge:
  "normalizeToMiddleBand64 belowBand (1000 - 1 / 2 ^ 43) = 2000"
proof -
  have a: "(1000 - 1 / 2 ^ 43) - 1000 = (- (1 / 2 ^ 43) :: real)"
    by simp
  have b: "1000 + (1000 - 1 / 2 ^ 43) = (2000 - 1 / 2 ^ 43 :: real)"
    by simp
  show ?thesis
    by (simp only: normalizeToMiddleBand64_belowBand a round64_values normalizeOffset64_edge b)
qed

lemma syncFromCurrentScroll64_edge:
  "syncFromCurrentScroll64 belowBand = (setScrollSafely 2000 belowBand)\<lparr>savedPos := 0\<rparr>"
proof -
  have n: "normalizeToMiddleBand64 belowBand (scrollLeft belowBand) = 2000"
    by (simp only: belowBand_fields normalizeToMiddleBand64_edge)
  have d: "round64 (2000 - scrollLeft belowBand) = 1000 + 1 / 2 ^ 43"
  proof -
    have "2000 - (1000 - 1 / 2 ^ 43) = (1000 + 1 / 2 ^ 43 :: real)"
      by simp
    then show ?thesis
      by (simp only: belowBand_fields round64_values)
  qed
  have far: "1 < \<bar>round64 (2000 - scrollLeft belowBand)\<bar>"
    unfolding d by simp
  have o: "normalizeOffset64 (setScrollSafely 2000 belowBand) = normalizeOffset64 belowBand"
    by (simp add: fun_eq_iff normalizeOffset64_def)
  have e: "round64 (2000 - setWidth (setScrollSafely 2000 belowBand)) = 1000"
  proof -
    have "2000 - 1000 = (1000 :: real)"
      by simp
    then show ?thesis
      by (simp only: setScrollSafely_fields belowBand_fields round64_values)
  qed
  have w: "\<not> setWidth belowBand \<le> 0"
    by (simp add: belowBand_fields)
  show ?thesis
    unfolding syncFromCurrentScroll64_def Let_def n
    using w far by (simp only: if_False if_True o e normalizeOffset64_start)
qed

text \<open>
  On the worked example of the scroll listener, position 999 on a band of 1000 pixels, the
  rounded listener gives what the exact one gives.
\<close>

lemma onScroll64_leading_edge:
  "scrollLeft (onScroll64 (band1000\<lparr>scrollLeft := 999\<rparr>)) = 1999
    \<and> savedPos (onScroll64 (band1000\<lparr>scrollLeft := 999\<rparr>)) = 999"
  by code_simp

text \<open>
  C6, on the doubles of the program. With \<open>setWidth = 1000\<close>, the argument
  \<^verbatim>\<open>999.9999999999999\<close> is a double, and \<open>normalizeToMiddleBand64\<close> returns 2000 for it:
  the exact sum \<open>2000 - 2 ^ - 43\<close> lies midway between two doubles and is rounded to the
  even one. The result is \<open>2 * setWidth\<close>, the start of the trailing band, and not below
  it.
\<close>

theorem normalizeToMiddleBand64_reaches_trailing_band:
  "0 < setWidth belowBand
    \<and> round64 (1000 - 1 / 2 ^ 43) = 1000 - 1 / 2 ^ 43
    \<and> normalizeToMiddleBand64 belowBand (1000 - 1 / 2 ^ 43) = 2 * setWidth belowBand
    \<and> \<not> normalizeToMiddleBand64 belowBand (1000 - 1 / 2 ^ 43) < 2 * setWidth belowBand"
proof -
  have w: "0 < setWidth belowBand"
    by (simp add: belowBand_fields)
  have r: "round64 (1000 - 1 / 2 ^ 43) = 1000 - 1 / 2 ^ 43"
    by (rule round64_values)
  have "2 * setWidth belowBand = 2000"
    by (simp add: belowBand_fields)
  then have e: "normalizeToMiddleBand64 belowBand (1000 - 1 / 2 ^ 43) = 2 * setWidth belowBand"
    by (simp only: normalizeToMiddleBand64_edge)
  have n: "\<not> normalizeToMiddleBand64 belowBand (1000 - 1 / 2 ^ 43) < 2 * setWidth belowBand"
    unfolding e by simp
  show ?thesis
    by (intro conjI w r e n)
qed

text \<open>
  C1, on the doubles of the program. The user has scrolled to \<^verbatim>\<open>999.9999999999999\<close> on
  a band of 1000 pixels and the scroll event arrives with \<open>autoWrite\<close> down. The listener
  finds the middle-band coordinate 2000 more than a pixel away, writes it, and then sets
  \<open>savedPos\<close> to the offset of 2000, which is 0. At the end of the listener \<open>scrollLeft\<close>
  is 2000, and \<open>setWidth + savedPos\<close> is 1000.
\<close>

theorem onScroll64_breaks_position_offset_agreement:
  "\<not> autoWrite belowBand \<and> 0 < setWidth belowBand
    \<and> round64 (scrollLeft belowBand) = scrollLeft belowBand
    \<and> 1 < \<bar>round64 (normalizeToMiddleBand64 belowBand (scrollLeft belowBand) - scrollLeft belowBand)\<bar>
    \<and> scrollLeft (onScroll64 belowBand) = 2000
    \<and> setWidth (onScroll64 belowBand) = 1000
    \<and> savedPos (onScroll64 belowBand) = 0
    \<and> scrollLeft (onScroll64 belowBand)
        \<noteq> round64 (setWidth (onScroll64 belowBand) + savedPos (onScroll64 belowBand))"
proof -
  have f: "\<not> autoWrite belowBand" and w: "0 < setWidth belowBand"
    by (simp_all add: belowBand_fields)
  have r: "round64 (scrollLeft belowBand) = scrollLeft belowBand"
    by (simp only: belowBand_fields round64_values)
  have far: "1 < \<bar>round64 (normalizeToMiddleBand64 belowBand (scrollLeft belowBand) - scrollLeft belowBand)\<bar>"
  proof -
    have "2000 - (1000 - 1 / 2 ^ 43) = (1000 + 1 / 2 ^ 43 :: real)"
      by simp
    then have "round64 (normalizeToMiddleBand64 belowBand (scrollLeft belowBand) - scrollLeft belowBand)
        = 1000 + 1 / 2 ^ 43"
      by (simp only: belowBand_fields normalizeToMiddleBand64_edge round64_values)
    then show ?thesis by simp
  qed
  have o: "onScroll64 belowBand = schedulePersist ((setScrollSafely 2000 belowBand)\<lparr>savedPos := 0\<rparr>)"
    using f w by (simp add: onScroll64_def syncFromCurrentScroll64_edge)
  have a: "scrollLeft (onScroll64 belowBand) = 2000"
    and b: "setWidth (onScroll64 belowBand) = 1000"
    and c: "savedPos (onScroll64 belowBand) = 0"
    unfolding o by (simp_all add: belowBand_fields)
  have "round64 (1000 + 0) = 1000"
    by (simp add: round64_values)
  then have d: "scrollLeft (onScroll64 belowBand)
        \<noteq> round64 (setWidth (onScroll64 belowBand) + savedPos (onScroll64 belowBand))"
    unfolding a b c by simp
  show ?thesis
    by (intro conjI f w r far a b c d)
qed

end
